theory Spec2Isabelle
  imports Main "HOL-Library.Word" "HOL-Library.AList"
begin

section \<open>The peers package: topic pools and the peer pool\<close>

text \<open>
  A shallow embedding of \<^verbatim>\<open>geth/peers/peerpool.go\<close> and of the topic pool
  (\<^verbatim>\<open>TopicPool\<close>, same package). Every method that runs under the pool's mutex
  is one atomic function of the model. Calls of \<^verbatim>\<open>log\<close> have no effect on the pool
  and are left out.
\<close>

subsection \<open>Basic types\<close>

text \<open>
  \<^verbatim>\<open>discv5.NodeID\<close> and \<^verbatim>\<open>discover.NodeID\<close> are both 64-byte arrays; the
  conversions between them are the identity. \<^verbatim>\<open>discv5.Topic\<close> is a string.
  \<^verbatim>\<open>time.Duration\<close> and \<^verbatim>\<open>mclock.AbsTime\<close> are 64-bit counts of nanoseconds;
  readings of the monotonic clock and the configured periods stay far from the ends of
  that range, so both are integers here and no sum of them wraps.
\<close>

type_synonym NodeID = "512 word"
type_synonym Topic = string
type_synonym Duration = int
type_synonym AbsTime = int

record Node =
  ID :: NodeID
  IP :: "8 word list"
  UDP :: "16 word"
  TCP :: "16 word"

text \<open>
  Modelled from the spec: \<^verbatim>\<open>params.Limits\<close> is declared outside the files at hand.
  It is the pair \<open>(min, max)\<close> that the code reads as \<^verbatim>\<open>limits[0]\<close> and
  \<^verbatim>\<open>limits[1]\<close> and compares with the \<^verbatim>\<open>int\<close> counter.
\<close>

type_synonym Limits = "int \<times> int"

definition expirationPeriod :: Duration where
  "expirationPeriod = 60 * (60 * 1000000000)"

definition DefaultFastSync :: Duration where
  "DefaultFastSync = 3 * 1000000000"

definition DefaultSlowSync :: Duration where
  "DefaultSlowSync = 30 * (60 * 1000000000)"

subsection \<open>Faults and channels\<close>

text \<open>
  What stops a call short of its return: a panic of the Go runtime, or a channel
  operation that can never proceed.
\<close>

datatype fault =
    NilDereference
  | SendOnClosedChannel
  | CloseOfNilChannel
  | CloseOfClosedChannel
  | BlocksForever

text \<open>
  A channel is nil, open or closed. The list is the values sent so far, oldest first.
  The receiving end of the period channel is the discovery worker, which is not part of
  the files at hand: a full buffer delays a send until the worker has received, so the
  capacity is not a bound on the list.
\<close>

datatype 'a chan = ChanNil | ChanOpen "'a list" | ChanClosed "'a list"

fun send :: "'a chan \<Rightarrow> 'a \<Rightarrow> fault + 'a chan" where
  "send ChanNil v = Inl BlocksForever"
| "send (ChanOpen vs) v = Inr (ChanOpen (vs @ [v]))"
| "send (ChanClosed vs) v = Inl SendOnClosedChannel"

fun close :: "'a chan \<Rightarrow> fault + 'a chan" where
  "close ChanNil = Inl CloseOfNilChannel"
| "close (ChanOpen vs) = Inr (ChanClosed vs)"
| "close (ChanClosed vs) = Inl CloseOfClosedChannel"

subsection \<open>The P2P server\<close>

text \<open>
  Modelled from the spec: \<^verbatim>\<open>p2p.Server\<close> is an external collaborator. The pool
  reads \<^verbatim>\<open>Self()\<close> and the field \<^verbatim>\<open>DiscV5\<close> and makes requests; the model
  keeps the requests in the order they were made. A DiscoveryV5 handle is a name for
  one bring-up of the listener.
\<close>

datatype Network = Network nat

datatype ServerCall =
    AddPeer Node
  | RemovePeer Node
  | SearchTopic Topic
  | SubscribeEvents
  | Discv5Close Network

record Server =
  Self :: Node
  DiscV5 :: "Network option"
  calls :: "ServerCall list"

definition request :: "Server \<Rightarrow> ServerCall \<Rightarrow> Server" where
  "request server c = server\<lparr>calls := calls server @ [c]\<rparr>"

definition NewNode :: "NodeID \<Rightarrow> 8 word list \<Rightarrow> 16 word \<Rightarrow> 16 word \<Rightarrow> Node" where
  "NewNode i a u t = \<lparr>ID = i, IP = a, UDP = u, TCP = t\<rparr>"

subsection \<open>The peer cache\<close>

text \<open>
  Modelled from the spec: the cache (\<^verbatim>\<open>Cache\<close>, section 4.1) is declared outside
  the files at hand. It maps \<open>(topic, node id)\<close> to a node, the last write winning;
  \<^verbatim>\<open>AddPeer\<close> fails when the store is unwritable, \<^verbatim>\<open>RemovePeer\<close> of a missing
  key is not an error, and \<^verbatim>\<open>GetPeersRange\<close> returns at most \<open>n\<close> nodes of the
  topic in a stable order. The pool holds it by a pointer; no function of the files at
  hand copies that pointer from one holder to another, so the model keeps the contents
  where the pointer is.
\<close>

datatype cache_error = StorageUnavailable

record Cache =
  entries :: "((Topic \<times> NodeID) \<times> Node) list"
  unwritable :: bool

definition cache_AddPeer :: "Cache \<Rightarrow> Node \<Rightarrow> Topic \<Rightarrow> cache_error + Cache" where
  "cache_AddPeer c n tp =
     (if unwritable c then Inl StorageUnavailable
      else Inr (c\<lparr>entries := AList.update (tp, ID n) n (entries c)\<rparr>))"

definition cache_RemovePeer :: "Cache \<Rightarrow> NodeID \<Rightarrow> Topic \<Rightarrow> cache_error + Cache" where
  "cache_RemovePeer c i tp =
     (if unwritable c then Inl StorageUnavailable
      else Inr (c\<lparr>entries := AList.delete (tp, i) (entries c)\<rparr>))"

definition cache_GetPeersRange :: "Cache \<Rightarrow> Topic \<Rightarrow> nat \<Rightarrow> Node list" where
  "cache_GetPeersRange c tp n =
     take n (map snd (filter (\<lambda>e. fst (fst e) = tp) (entries c)))"

subsection \<open>Peer records and the topic pool\<close>

record peerInfo =
  discoveredTime :: AbsTime
  connected :: bool
  requested :: bool
  node :: Node

text \<open>
  The fields of \<^verbatim>\<open>TopicPool\<close>. The counter \<^verbatim>\<open>connected\<close> is \<open>nconnected\<close>
  (the name \<open>connected\<close> is the flag of \<open>peerInfo\<close>). \<^verbatim>\<open>running\<close> is the
  \<^verbatim>\<open>int32\<close> read and written atomically. The two wait groups count the goroutines
  not yet done. The mutex is left out: each locked method is one step.
\<close>

record TopicPool =
  topic :: Topic
  limits :: Limits
  slowSync :: Duration
  fastSync :: Duration
  quit :: "unit chan"
  running :: "32 word"
  discvWG :: nat
  consumerWG :: nat
  nconnected :: int
  peers :: "NodeID \<rightharpoonup> peerInfo"
  period :: "Duration chan"
  cache :: "Cache option"

definition NewTopicPool :: "Topic \<Rightarrow> Limits \<Rightarrow> Duration \<Rightarrow> Duration \<Rightarrow> TopicPool" where
  "NewTopicPool tp lim slow fast =
     \<lparr>topic = tp, limits = lim, slowSync = slow, fastSync = fast,
      quit = ChanNil, running = 0, discvWG = 0, consumerWG = 0,
      nconnected = 0, peers = Map.empty, period = ChanNil, cache = None\<rparr>"

definition SearchRunning :: "TopicPool \<Rightarrow> bool" where
  "SearchRunning t = (running t = 1)"

definition MaxReached :: "TopicPool \<Rightarrow> bool" where
  "MaxReached t = (nconnected t = snd (limits t))"

definition BelowMin :: "TopicPool \<Rightarrow> bool" where
  "BelowMin t = (nconnected t < fst (limits t))"

definition addPeer :: "Server \<Rightarrow> peerInfo \<Rightarrow> Server" where
  "addPeer server info =
     request server (AddPeer (NewNode (ID (node info)) (IP (node info))
                                      (UDP (node info)) (TCP (node info))))"

definition removePeer :: "Server \<Rightarrow> peerInfo \<Rightarrow> Server" where
  "removePeer server info =
     request server (RemovePeer (NewNode (ID (node info)) (IP (node info))
                                         (UDP (node info)) (TCP (node info))))"

text \<open>
  The two cache updates of the pool. An error of the cache is logged and the pool goes
  on; without a cache nothing happens.
\<close>

definition persistPeer :: "TopicPool \<Rightarrow> peerInfo \<Rightarrow> TopicPool" where
  "persistPeer t peer =
     (case cache t of
        None \<Rightarrow> t
      | Some c \<Rightarrow>
          (case cache_AddPeer c (node peer) (topic t) of
             Inl err \<Rightarrow> t
           | Inr c' \<Rightarrow> t\<lparr>cache := Some c'\<rparr>))"

definition forgetPeer :: "TopicPool \<Rightarrow> NodeID \<Rightarrow> TopicPool" where
  "forgetPeer t nodeID =
     (case cache t of
        None \<Rightarrow> t
      | Some c \<Rightarrow>
          (case cache_RemovePeer c nodeID (topic t) of
             Inl err \<Rightarrow> t
           | Inr c' \<Rightarrow> t\<lparr>cache := Some c'\<rparr>))"

text \<open>
  The guarded send of a period: \<^verbatim>\<open>if t.SearchRunning() && t.connected == t.limits[0]\<close>.
\<close>

definition sendPeriodAtMin :: "TopicPool \<Rightarrow> Duration \<Rightarrow> fault + TopicPool" where
  "sendPeriodAtMin t d =
     (if SearchRunning t \<and> nconnected t = fst (limits t)
      then (case send (period t) d of
              Inl f \<Rightarrow> Inl f
            | Inr ch \<Rightarrow> Inr (t\<lparr>period := ch\<rparr>))
      else Inr t)"

subsection \<open>ConfirmAdded\<close>

definition ConfirmAdded :: "Server \<Rightarrow> TopicPool \<Rightarrow> NodeID \<Rightarrow> fault + (Server \<times> TopicPool)" where
  "ConfirmAdded server t nodeID =
     (case peers t nodeID of
        None \<Rightarrow> Inr (server, t)
      | Some peer \<Rightarrow>
          let t1 = persistPeer t peer in
          if nconnected t1 = snd (limits t1) then
            Inr (removePeer server (peer\<lparr>requested := True\<rparr>),
                 t1\<lparr>peers := (peers t1)(nodeID \<mapsto> peer\<lparr>requested := True\<rparr>)\<rparr>)
          else
            let t2 = (if \<not> connected peer
                      then t1\<lparr>nconnected := nconnected t1 + 1,
                              peers := (peers t1)(nodeID \<mapsto> peer\<lparr>connected := True\<rparr>)\<rparr>
                      else t1)
            in (case sendPeriodAtMin t2 (slowSync t2) of
                  Inl f \<Rightarrow> Inl f
                | Inr t3 \<Rightarrow> Inr (server, t3)))"

subsection \<open>ConfirmDropped\<close>

text \<open>
  The loop over \<^verbatim>\<open>t.peers\<close> visits the keys in an order the runtime chooses, and
  reads the clock at each entry that is not connected. The argument \<open>visits\<close> is that
  order, each key with the reading of \<^verbatim>\<open>mclock.Now()\<close> taken at it.
\<close>

fun findReplacement :: "(NodeID \<rightharpoonup> peerInfo) \<Rightarrow> (NodeID \<times> AbsTime) list \<Rightarrow> peerInfo option" where
  "findReplacement ps [] = None"
| "findReplacement ps ((k, now) # rest) =
     (case ps k of
        None \<Rightarrow> findReplacement ps rest
      | Some peer \<Rightarrow>
          if \<not> connected peer \<and> now < discoveredTime peer + expirationPeriod
          then Some peer
          else findReplacement ps rest)"

definition ConfirmDropped ::
  "Server \<Rightarrow> TopicPool \<Rightarrow> NodeID \<Rightarrow> string \<Rightarrow> (NodeID \<times> AbsTime) list
     \<Rightarrow> fault + (Server \<times> TopicPool \<times> peerInfo option \<times> bool)" where
  "ConfirmDropped server t nodeID reason visits =
     (case peers t nodeID of
        None \<Rightarrow> Inr (server, t, None, True)
      | Some peer \<Rightarrow>
          if requested peer then Inr (server, t, None, True)
          else
            (case sendPeriodAtMin t (fastSync t) of
               Inl f \<Rightarrow> Inl f
             | Inr t1 \<Rightarrow>
                 let t2 = t1\<lparr>nconnected := nconnected t1 - 1\<rparr>;
                     server1 = removePeer server peer;
                     t3 = t2\<lparr>peers := (peers t2)(nodeID := None)\<rparr>;
                     t4 = forgetPeer t3 nodeID
                 in (case findReplacement (peers t4) visits of
                       Some cand \<Rightarrow> Inr (addPeer server1 cand, t4, Some cand, False)
                     | None \<Rightarrow> Inr (server1, t4, None, False))))"

subsection \<open>processFoundNode\<close>

definition processFoundNode :: "Server \<Rightarrow> TopicPool \<Rightarrow> Node \<Rightarrow> AbsTime \<Rightarrow> Server \<times> TopicPool" where
  "processFoundNode server t n now =
     (let info = (case peers t (ID n) of
                    Some old \<Rightarrow> old\<lparr>discoveredTime := now\<rparr>
                  | None \<Rightarrow> \<lparr>discoveredTime = now, connected = False,
                             requested = False, node = n\<rparr>);
          t1 = t\<lparr>peers := (peers t)(ID n \<mapsto> info)\<rparr>
      in if nconnected t1 < snd (limits t1) \<and> \<not> connected info
         then (addPeer server info, t1)
         else (server, t1))"

subsection \<open>StartSearch, the consumer and StopSearch\<close>

text \<open>The values of Go's \<^verbatim>\<open>error\<close> that the package returns or receives.\<close>

datatype error = ErrDiscv5NotRunning | OtherError string

text \<open>
  \<^verbatim>\<open>StartSearch\<close> returns the error (\<open>None\<close> is \<^verbatim>\<open>nil\<close>) and the channel
  \<^verbatim>\<open>found\<close> that it made and seeded, which is nil when it made none. Starting the
  discovery worker is the request \<open>SearchTopic\<close>; the consumer is
  \<open>handleFoundPeers\<close> below.
\<close>

definition StartSearch :: "Server \<Rightarrow> TopicPool \<Rightarrow> Server \<times> TopicPool \<times> Node chan \<times> error option" where
  "StartSearch server t =
     (if running t = 1 then (server, t, ChanNil, None)
      else if DiscV5 server = None then (server, t, ChanNil, Some ErrDiscv5NotRunning)
      else
        let t1 = t\<lparr>running := 1, quit := ChanOpen [], period := ChanOpen []\<rparr>;
            found = (case cache t1 of
                       None \<Rightarrow> []
                     | Some c \<Rightarrow> cache_GetPeersRange c (topic t1) 5)
        in (request server (SearchTopic (topic t1)),
            t1\<lparr>discvWG := discvWG t1 + 1, consumerWG := consumerWG t1 + 1\<rparr>,
            ChanOpen found, None))"

text \<open>
  The consumer's loop is driven by what its \<^verbatim>\<open>select\<close> receives: the closed quit
  channel, a value of \<^verbatim>\<open>lookup\<close>, or a node of \<^verbatim>\<open>found\<close> together with the
  clock reading that \<^verbatim>\<open>processFoundNode\<close> takes. A receive from the quit
  channel proceeds only when that channel is closed; on a channel that is not, the
  \<^verbatim>\<open>select\<close> does not take that case and the state stays. The flag of the
  result says whether the loop has returned; with the input used up it still waits.
\<close>

datatype received = RecvQuit | RecvLookup bool | RecvFound Node AbsTime

fun consumerStep :: "NodeID \<Rightarrow> Server \<times> TopicPool \<Rightarrow> received \<Rightarrow> (Server \<times> TopicPool) \<times> bool" where
  "consumerStep selfID (server, t) RecvQuit =
     (case quit t of
        ChanClosed vs \<Rightarrow> ((server, t), True)
      | ChanOpen vs \<Rightarrow> ((server, t), False)
      | ChanNil \<Rightarrow> ((server, t), False))"
| "consumerStep selfID st (RecvLookup b) = (st, False)"
| "consumerStep selfID (server, t) (RecvFound n now) =
     (if ID n \<noteq> selfID then (processFoundNode server t n now, False)
      else ((server, t), False))"

fun consumerLoop :: "NodeID \<Rightarrow> Server \<times> TopicPool \<Rightarrow> received list \<Rightarrow> (Server \<times> TopicPool) \<times> bool" where
  "consumerLoop selfID st [] = (st, False)"
| "consumerLoop selfID st (m # ms) =
     (case consumerStep selfID st m of
        (st1, True) \<Rightarrow> (st1, True)
      | (st1, False) \<Rightarrow> consumerLoop selfID st1 ms)"

definition handleFoundPeers ::
  "Server \<Rightarrow> TopicPool \<Rightarrow> received list \<Rightarrow> fault + ((Server \<times> TopicPool) \<times> bool)" where
  "handleFoundPeers server t ms =
     (case send (period t)
             (if nconnected t \<ge> fst (limits t) then slowSync t else fastSync t) of
        Inl f \<Rightarrow> Inl f
      | Inr ch \<Rightarrow> Inr (consumerLoop (ID (Self server)) (server, t\<lparr>period := ch\<rparr>) ms))"

text \<open>
  \<^verbatim>\<open>StopSearch\<close>. The consumer returns once the quit channel is closed and the
  discovery worker once the period channel is closed, so each \<^verbatim>\<open>Wait\<close> ends with
  its wait group at zero.
\<close>

definition StopSearch :: "TopicPool \<Rightarrow> fault + TopicPool" where
  "StopSearch t =
     (if \<not> SearchRunning t then Inr t
      else
        (case quit t of
           ChanNil \<Rightarrow> Inr t
         | ChanClosed vs \<Rightarrow> Inr t
         | ChanOpen vs \<Rightarrow>
             let t1 = t\<lparr>quit := ChanClosed vs\<rparr>;
                 t2 = t1\<lparr>consumerWG := 0\<rparr>;
                 t3 = t2\<lparr>running := 0\<rparr>
             in (case close (period t3) of
                   Inl f \<Rightarrow> Inl f
                 | Inr ch \<Rightarrow> Inr (t3\<lparr>period := ch, discvWG := 0\<rparr>))))"

subsection \<open>The peer pool\<close>

text \<open>
  A subscription counts the calls of \<^verbatim>\<open>Unsubscribe\<close> made on it. The map
  \<^verbatim>\<open>config\<close> is the list of its entries in the order \<^verbatim>\<open>range\<close> yields them, one
  entry for each topic, so its length is \<^verbatim>\<open>len(p.config)\<close>. The fields
  \<open>pfastSync\<close>, \<open>pslowSync\<close>, \<open>pcache\<close> and \<open>pquit\<close> are \<^verbatim>\<open>fastSync\<close>,
  \<^verbatim>\<open>slowSync\<close>, \<^verbatim>\<open>cache\<close> and \<^verbatim>\<open>quit\<close> of \<^verbatim>\<open>PeerPool\<close>.
\<close>

record Subscription =
  unsubscribed :: nat

record PeerPool =
  config :: "(Topic \<times> Limits) list"
  pfastSync :: Duration
  pslowSync :: Duration
  pcache :: "Cache option"
  stopOnMax :: bool
  topics :: "TopicPool list"
  serverSubscription :: "Subscription option"
  pquit :: "unit chan"
  wg :: nat

definition NewPeerPool ::
  "(Topic \<times> Limits) list \<Rightarrow> Duration \<Rightarrow> Duration \<Rightarrow> Cache option \<Rightarrow> bool \<Rightarrow> PeerPool" where
  "NewPeerPool cfg fast slow c som =
     \<lparr>config = cfg, pfastSync = fast, pslowSync = slow, pcache = c, stopOnMax = som,
      topics = [], serverSubscription = None, pquit = ChanNil, wg = 0\<rparr>"

fun startTopics ::
  "Server \<Rightarrow> Duration \<Rightarrow> Duration \<Rightarrow> (Topic \<times> Limits) list \<Rightarrow> TopicPool list
     \<Rightarrow> Server \<times> TopicPool list \<times> error option" where
  "startTopics server slow fast [] acc = (server, acc, None)"
| "startTopics server slow fast ((tp, lim) # rest) acc =
     (case StartSearch server (NewTopicPool tp lim slow fast) of
        (server1, topicPool, found, Some err) \<Rightarrow> (server1, acc, Some err)
      | (server1, topicPool, found, None) \<Rightarrow>
          startTopics server1 slow fast rest (acc @ [topicPool]))"

definition Start :: "Server \<Rightarrow> PeerPool \<Rightarrow> Server \<times> PeerPool \<times> error option" where
  "Start server p =
     (if DiscV5 server = None then (server, p, Some ErrDiscv5NotRunning)
      else
        let p1 = p\<lparr>pquit := ChanOpen [], topics := []\<rparr> in
        (case startTopics server (pslowSync p1) (pfastSync p1) (config p1) [] of
           (server1, ts, Some err) \<Rightarrow> (server1, p1\<lparr>topics := ts\<rparr>, Some err)
         | (server1, ts, None) \<Rightarrow>
             (request server1 SubscribeEvents,
              p1\<lparr>topics := ts, serverSubscription := Some \<lparr>unsubscribed = 0\<rparr>,
                 wg := wg p1 + 1\<rparr>,
              None)))"

fun stopAll :: "TopicPool list \<Rightarrow> fault + TopicPool list" where
  "stopAll [] = Inr []"
| "stopAll (t # ts) =
     (case StopSearch t of
        Inl f \<Rightarrow> Inl f
      | Inr t1 \<Rightarrow> (case stopAll ts of Inl f \<Rightarrow> Inl f | Inr ts1 \<Rightarrow> Inr (t1 # ts1)))"

text \<open>
  \<^verbatim>\<open>Stop\<close>. The event task returns once the quit channel is closed, so
  \<^verbatim>\<open>p.wg.Wait()\<close> ends with the wait group at zero.
\<close>

definition Stop :: "PeerPool \<Rightarrow> fault + PeerPool" where
  "Stop p =
     (case pquit p of
        ChanNil \<Rightarrow> Inr p
      | ChanClosed vs \<Rightarrow> Inr p
      | ChanOpen vs \<Rightarrow>
          (case serverSubscription p of
             None \<Rightarrow> Inl NilDereference
           | Some sub \<Rightarrow>
               (case stopAll (topics p) of
                  Inl f \<Rightarrow> Inl f
                | Inr ts \<Rightarrow>
                    Inr (p\<lparr>pquit := ChanClosed vs,
                           serverSubscription := Some (sub\<lparr>unsubscribed := unsubscribed sub + 1\<rparr>),
                           topics := ts, wg := 0\<rparr>))))"

subsection \<open>The event task\<close>

text \<open>
  The event type and the fields of \<^verbatim>\<open>p2p.PeerEvent\<close> that the pool reads.
\<close>

datatype PeerEventType =
    PeerEventTypeAdd
  | PeerEventTypeDrop
  | PeerEventTypeMsgSend
  | PeerEventTypeMsgRecv

record PeerEvent =
  Type :: PeerEventType
  Peer :: NodeID
  Error :: string

text \<open>
  The state of \<^verbatim>\<open>handleServerPeers\<close>: the server, the pool, and the two locals.
  \<^verbatim>\<open>toSearch\<close> holds pointers to topic pools of \<^verbatim>\<open>p.topics\<close>; here each is the
  position of its pool in that list. \<^verbatim>\<open>retryDiscv5\<close> is true while the timer of
  \<^verbatim>\<open>time.After\<close> is armed and has not fired.
\<close>

record Dispatch =
  srv :: Server
  pool :: PeerPool
  toSearch :: "nat list"
  retryDiscv5 :: bool

fun restartSearches :: "Server \<Rightarrow> TopicPool list \<Rightarrow> nat list \<Rightarrow> Server \<times> TopicPool list" where
  "restartSearches server ts [] = (server, ts)"
| "restartSearches server ts (i # rest) =
     (if i < length ts
      then (case StartSearch server (ts ! i) of
              (server1, t1, found, err) \<Rightarrow> restartSearches server1 (ts[i := t1]) rest)
      else restartSearches server ts rest)"

text \<open>
  Modelled from the spec: \<^verbatim>\<open>StartDiscv5\<close> is declared outside the files at hand. It
  brings the listener up and returns a handle or an error; \<open>bringUp\<close> is what it
  returns if \<^verbatim>\<open>runListener\<close> calls it.
\<close>

definition runListener :: "Dispatch \<Rightarrow> error + Network \<Rightarrow> Dispatch" where
  "runListener d bringUp =
     (let restart = (\<lambda>d1.
            case restartSearches (srv d1) (topics (pool d1)) (toSearch d1) of
              (server1, ts) \<Rightarrow> d1\<lparr>srv := server1, pool := (pool d1)\<lparr>topics := ts\<rparr>, toSearch := []\<rparr>)
      in if DiscV5 (srv d) = None
         then (case bringUp of
                 Inl err \<Rightarrow> d\<lparr>retryDiscv5 := True\<rparr>
               | Inr ntab \<Rightarrow> restart (d\<lparr>srv := (srv d)\<lparr>DiscV5 := Some ntab\<rparr>\<rparr>))
         else restart d)"

text \<open>
  The loop of the drop branch over \<^verbatim>\<open>p.topics\<close>; \<open>vis i\<close> is the order and the
  clock readings of the scan in the pool at position \<open>i\<close>. The result lists the
  positions appended to \<^verbatim>\<open>toSearch\<close>.
\<close>

fun confirmDroppedAll ::
  "NodeID \<Rightarrow> string \<Rightarrow> (nat \<Rightarrow> (NodeID \<times> AbsTime) list) \<Rightarrow> nat \<Rightarrow> Server \<Rightarrow> TopicPool list
     \<Rightarrow> fault + (Server \<times> TopicPool list \<times> nat list)" where
  "confirmDroppedAll nodeID reason vis i server [] = Inr (server, [], [])"
| "confirmDroppedAll nodeID reason vis i server (t # ts) =
     (case ConfirmDropped server t nodeID reason (vis i) of
        Inl f \<Rightarrow> Inl f
      | Inr (server1, t1, info, ignored) \<Rightarrow>
          (case confirmDroppedAll nodeID reason vis (Suc i) server1 ts of
             Inl f \<Rightarrow> Inl f
           | Inr (server2, ts2, below) \<Rightarrow>
               Inr (server2, t1 # ts2,
                    (if BelowMin t1 \<and> \<not> ignored then [i] else []) @ below)))"

text \<open>
  The loop of the add branch over \<^verbatim>\<open>p.topics\<close>; the last component \<open>tot\<close> is \<^verbatim>\<open>total\<close>.
\<close>

fun confirmAddedAll ::
  "bool \<Rightarrow> NodeID \<Rightarrow> Server \<Rightarrow> TopicPool list \<Rightarrow> fault + (Server \<times> TopicPool list \<times> nat)" where
  "confirmAddedAll som nodeID server [] = Inr (server, [], 0)"
| "confirmAddedAll som nodeID server (t # ts) =
     (case ConfirmAdded server t nodeID of
        Inl f \<Rightarrow> Inl f
      | Inr (server1, t1) \<Rightarrow>
          (case (if som \<and> MaxReached t1
                 then (case StopSearch t1 of Inl f \<Rightarrow> Inl f | Inr t2 \<Rightarrow> Inr (t2, 1))
                 else Inr (t1, 0)) of
             Inl f \<Rightarrow> Inl f
           | Inr (t2, inc) \<Rightarrow>
               (case confirmAddedAll som nodeID server1 ts of
                  Inl f \<Rightarrow> Inl f
                | Inr (server2, ts2, tot) \<Rightarrow> Inr (server2, t2 # ts2, inc + tot))))"

text \<open>
  \<^verbatim>\<open>server.DiscV5.Close()\<close> followed by \<^verbatim>\<open>server.DiscV5 = nil\<close>. The method
  \<^verbatim>\<open>Close\<close> of \<^verbatim>\<open>discv5.Network\<close> reads the fields of its receiver, so the call
  on a nil handle is a nil dereference.
\<close>

definition closeDiscv5 :: "Server \<Rightarrow> fault + Server" where
  "closeDiscv5 server =
     (case DiscV5 server of
        None \<Rightarrow> Inl NilDereference
      | Some ntab \<Rightarrow> Inr ((request server (Discv5Close ntab))\<lparr>DiscV5 := None\<rparr>))"

definition handleEvent ::
  "Dispatch \<Rightarrow> PeerEvent \<Rightarrow> error + Network \<Rightarrow> (nat \<Rightarrow> (NodeID \<times> AbsTime) list) \<Rightarrow> fault + Dispatch" where
  "handleEvent d event bringUp vis =
     (if Type event = PeerEventTypeDrop then
        (case confirmDroppedAll (Peer event) (Error event) vis 0 (srv d) (topics (pool d)) of
           Inl f \<Rightarrow> Inl f
         | Inr (server1, ts, below) \<Rightarrow>
             let d1 = d\<lparr>srv := server1, pool := (pool d)\<lparr>topics := ts\<rparr>,
                        toSearch := toSearch d @ below\<rparr>
             in if length (toSearch d1) \<noteq> 0 \<and> stopOnMax (pool d1)
                then Inr (runListener d1 bringUp)
                else Inr d1)
      else if Type event = PeerEventTypeAdd then
        (case confirmAddedAll (stopOnMax (pool d)) (Peer event) (srv d) (topics (pool d)) of
           Inl f \<Rightarrow> Inl f
         | Inr (server1, ts, tot) \<Rightarrow>
             let d1 = d\<lparr>srv := server1, pool := (pool d)\<lparr>topics := ts\<rparr>\<rparr>
             in if stopOnMax (pool d1) \<and> tot = length (config (pool d1))
                then (case closeDiscv5 (srv d1) of
                        Inl f \<Rightarrow> Inl f
                      | Inr server2 \<Rightarrow> Inr (d1\<lparr>srv := server2\<rparr>))
                else Inr d1)
      else Inr d)"

text \<open>
  What the \<^verbatim>\<open>select\<close> of the event task takes: the closed quit channel, the retry
  timer, or an event. The last two carry what the environment answers during the
  iteration: the result of \<^verbatim>\<open>StartDiscv5\<close> and, for an event, the scans. The
  quit case is taken only when the quit channel is closed, and the timer case only
  while the timer is armed; otherwise the state stays.
\<close>

datatype selected =
    SelQuit
  | SelRetry "error + Network"
  | SelEvent PeerEvent "error + Network" "nat \<Rightarrow> (NodeID \<times> AbsTime) list"

fun dispatchStep :: "Dispatch \<Rightarrow> selected \<Rightarrow> fault + (Dispatch \<times> bool)" where
  "dispatchStep d SelQuit =
     (case pquit (pool d) of
        ChanClosed vs \<Rightarrow> Inr (d, True)
      | ChanOpen vs \<Rightarrow> Inr (d, False)
      | ChanNil \<Rightarrow> Inr (d, False))"
| "dispatchStep d (SelRetry bringUp) =
     (if retryDiscv5 d
      then Inr (runListener (d\<lparr>retryDiscv5 := False\<rparr>) bringUp, False)
      else Inr (d, False))"
| "dispatchStep d (SelEvent event bringUp vis) =
     (case handleEvent d event bringUp vis of
        Inl f \<Rightarrow> Inl f
      | Inr d1 \<Rightarrow> Inr (d1, False))"

fun dispatchLoop :: "Dispatch \<Rightarrow> selected list \<Rightarrow> fault + (Dispatch \<times> bool)" where
  "dispatchLoop d [] = Inr (d, False)"
| "dispatchLoop d (s # rest) =
     (case dispatchStep d s of
        Inl f \<Rightarrow> Inl f
      | Inr (d1, True) \<Rightarrow> Inr (d1, True)
      | Inr (d1, False) \<Rightarrow> dispatchLoop d1 rest)"

definition handleServerPeers :: "Server \<Rightarrow> PeerPool \<Rightarrow> selected list \<Rightarrow> fault + (Dispatch \<times> bool)" where
  "handleServerPeers server p sels =
     dispatchLoop \<lparr>srv = server, pool = p, toSearch = [], retryDiscv5 = False\<rparr> sels"

subsection \<open>Sequences of calls on one topic pool\<close>

text \<open>
  The three methods that change the table and the counter, as calls with their
  arguments, and the run of a sequence of such calls. A fault ends the run.
\<close>

datatype call =
    CallConfirmAdded NodeID
  | CallConfirmDropped NodeID string "(NodeID \<times> AbsTime) list"
  | CallProcessFoundNode Node AbsTime

fun perform :: "Server \<times> TopicPool \<Rightarrow> call \<Rightarrow> fault + (Server \<times> TopicPool)" where
  "perform (server, t) (CallConfirmAdded nodeID) = ConfirmAdded server t nodeID"
| "perform (server, t) (CallConfirmDropped nodeID reason visits) =
     (case ConfirmDropped server t nodeID reason visits of
        Inl f \<Rightarrow> Inl f
      | Inr (server1, t1, info, ignored) \<Rightarrow> Inr (server1, t1))"
| "perform (server, t) (CallProcessFoundNode n now) = Inr (processFoundNode server t n now)"

fun performAll :: "Server \<times> TopicPool \<Rightarrow> call list \<Rightarrow> fault + (Server \<times> TopicPool)" where
  "performAll st [] = Inr st"
| "performAll st (c # cs) =
     (case perform st c of
        Inl f \<Rightarrow> Inl f
      | Inr st1 \<Rightarrow> performAll st1 cs)"

text \<open>The keys of the table whose entry is flagged connected.\<close>

definition connectedPeers :: "TopicPool \<Rightarrow> NodeID set" where
  "connectedPeers t = {k. \<exists>info. peers t k = Some info \<and> connected info}"

subsection \<open>Concrete nodes, servers and pools\<close>

text \<open>Inputs at which the theorems below are evaluated.\<close>

definition selfNode :: Node where
  "selfNode = \<lparr>ID = 0, IP = [127, 0, 0, 1], UDP = 30303, TCP = 30303\<rparr>"

definition nodeA :: Node where
  "nodeA = \<lparr>ID = 1, IP = [10, 0, 0, 1], UDP = 30303, TCP = 30303\<rparr>"

definition nodeB :: Node where
  "nodeB = \<lparr>ID = 2, IP = [10, 0, 0, 2], UDP = 30303, TCP = 30303\<rparr>"

definition server0 :: Server where
  "server0 = \<lparr>Self = selfNode, DiscV5 = Some (Network 0), calls = []\<rparr>"

definition infoA :: peerInfo where
  "infoA = \<lparr>discoveredTime = 0, connected = True, requested = False, node = nodeA\<rparr>"

definition infoB :: peerInfo where
  "infoB = \<lparr>discoveredTime = 100, connected = False, requested = False, node = nodeB\<rparr>"

text \<open>A pool with limits \<open>(1, 1)\<close> at its maximum, and one with limits \<open>(2, 3)\<close> below it.\<close>

definition poolFull :: TopicPool where
  "poolFull = (NewTopicPool ''A'' (1, 1) DefaultSlowSync DefaultFastSync)
                \<lparr>nconnected := 1, peers := [1 \<mapsto> infoA, 2 \<mapsto> infoB]\<rparr>"


text \<open>The pool \<open>poolFull\<close> after the gate of \<^verbatim>\<open>ConfirmAdded\<close> has marked node 2.\<close>

definition poolGated :: TopicPool where
  "poolGated = poolFull\<lparr>peers := [1 \<mapsto> infoA, 2 \<mapsto> infoB\<lparr>requested := True\<rparr>]\<rparr>"

text \<open>
  A cache that holds node 2 for topic \<open>A\<close>, and a peer pool for that one topic with
  limits \<open>(1, 1)\<close>, created with the cache and with \<^verbatim>\<open>stopOnMax\<close> set.
\<close>

definition cache1 :: Cache where
  "cache1 = \<lparr>entries = [((''A'', 2), nodeB)], unwritable = False\<rparr>"

definition peerPool1 :: PeerPool where
  "peerPool1 = NewPeerPool [(''A'', (1, 1))] DefaultFastSync DefaultSlowSync (Some cache1) True"

text \<open>The server, the topic pool and the peer pool as \<^verbatim>\<open>Start\<close> leaves them.\<close>

definition startedServer :: Server where
  "startedServer = server0\<lparr>calls := [SearchTopic ''A'', SubscribeEvents]\<rparr>"

definition startedPool :: TopicPool where
  "startedPool = (NewTopicPool ''A'' (1, 1) DefaultSlowSync DefaultFastSync)
      \<lparr>quit := ChanOpen [], running := 1, discvWG := 1, consumerWG := 1,
       period := ChanOpen []\<rparr>"

definition startedPeerPool :: PeerPool where
  "startedPeerPool = peerPool1\<lparr>topics := [startedPool],
      serverSubscription := Some \<lparr>unsubscribed = 0\<rparr>, pquit := ChanOpen [], wg := 1\<rparr>"

text \<open>The same after the consumer has processed node 1, found at time 0.\<close>

definition foundServer :: Server where
  "foundServer = startedServer\<lparr>calls := [SearchTopic ''A'', SubscribeEvents, AddPeer nodeA]\<rparr>"

definition foundPool :: TopicPool where
  "foundPool = startedPool\<lparr>peers := [1 \<mapsto> infoA\<lparr>connected := False\<rparr>]\<rparr>"

definition addEvent :: "NodeID \<Rightarrow> PeerEvent" where
  "addEvent i = \<lparr>Type = PeerEventTypeAdd, Peer = i, Error = []\<rparr>"

section \<open>Properties\<close>

subsection \<open>Frame lemmas\<close>

lemma NewNode_fields [simp]: "NewNode (ID n) (IP n) (UDP n) (TCP n) = n"
  by (simp add: NewNode_def)

lemma persistPeer_fields [simp]:
  "nconnected (persistPeer t peer) = nconnected t"
  "limits (persistPeer t peer) = limits t"
  "peers (persistPeer t peer) = peers t"
  "running (persistPeer t peer) = running t"
  "period (persistPeer t peer) = period t"
  "slowSync (persistPeer t peer) = slowSync t"
  by (simp_all add: persistPeer_def split: option.splits sum.splits)

lemma forgetPeer_fields [simp]:
  "nconnected (forgetPeer t k) = nconnected t"
  "limits (forgetPeer t k) = limits t"
  "peers (forgetPeer t k) = peers t"
  "running (forgetPeer t k) = running t"
  "period (forgetPeer t k) = period t"
  by (simp_all add: forgetPeer_def split: option.splits sum.splits)

lemma sendPeriodAtMin_fields:
  "sendPeriodAtMin t d = Inr t1 \<Longrightarrow>
     nconnected t1 = nconnected t \<and> limits t1 = limits t \<and> peers t1 = peers t \<and>
     running t1 = running t \<and> cache t1 = cache t \<and> topic t1 = topic t"
  by (auto simp: sendPeriodAtMin_def split: if_splits sum.splits)

subsection \<open>The scan for a replacement\<close>



subsection \<open>The over-capacity gate of ConfirmAdded\<close>

text \<open>
  Claim C3. When \<^verbatim>\<open>ConfirmAdded\<close> finds an entry for the node id and the counter
  equals \<^verbatim>\<open>limits[1]\<close>, it returns; the table differs from the old one only in
  that entry, which now has \<open>requested\<close> set; the counter is unchanged and so not above
  the maximum; the one request made of the server is the removal of that peer; and
  beyond the table, only the cache of the pool may differ.
\<close>

theorem ConfirmAdded_at_max:
  assumes "peers t nodeID = Some peer" and "nconnected t = snd (limits t)"
  shows "\<exists>server' t'. ConfirmAdded server t nodeID = Inr (server', t') \<and>
           peers t' = (peers t)(nodeID \<mapsto> peer\<lparr>requested := True\<rparr>) \<and>
           nconnected t' = nconnected t \<and>
           nconnected t' \<le> snd (limits t') \<and>
           t'\<lparr>peers := peers t, cache := cache t\<rparr> = t \<and>
           server' = server\<lparr>calls := calls server @ [RemovePeer (node peer)]\<rparr>"
  using assms
  by (simp add: ConfirmAdded_def Let_def removePeer_def request_def persistPeer_def
      split: option.splits sum.splits)

theorem ConfirmAdded_at_max_witness:
  "peers poolFull 2 = Some infoB \<and> nconnected poolFull = snd (limits poolFull) \<and>
   (\<exists>server' t'. ConfirmAdded server0 poolFull 2 = Inr (server', t') \<and>
      peers t' = [1 \<mapsto> infoA, 2 \<mapsto> infoB\<lparr>requested := True\<rparr>] \<and>
      nconnected t' = 1 \<and>
      calls server' = [RemovePeer nodeB])"
proof -
  have h1: "peers poolFull 2 = Some infoB"
    by (simp add: poolFull_def NewTopicPool_def)
  have h2: "nconnected poolFull = snd (limits poolFull)"
    by (simp add: poolFull_def NewTopicPool_def)
  from ConfirmAdded_at_max [OF h1 h2, of server0] obtain server' t' where
    r: "ConfirmAdded server0 poolFull 2 = Inr (server', t')"
       "peers t' = (peers poolFull)(2 \<mapsto> infoB\<lparr>requested := True\<rparr>)"
       "nconnected t' = nconnected poolFull"
       "server' = server0\<lparr>calls := calls server0 @ [RemovePeer (node infoB)]\<rparr>"
    by blast
  have "peers t' = [1 \<mapsto> infoA, 2 \<mapsto> infoB\<lparr>requested := True\<rparr>]"
    using r(2) by (simp add: poolFull_def NewTopicPool_def)
  moreover have "nconnected t' = 1"
    using r(3) by (simp add: poolFull_def NewTopicPool_def)
  moreover have "calls server' = [RemovePeer nodeB]"
    using r(4) by (simp add: server0_def infoB_def)
  ultimately show ?thesis using h1 h2 r(1) by blast
qed

subsection \<open>Drops of requested peers\<close>

text \<open>
  Claim C5. When \<^verbatim>\<open>ConfirmDropped\<close> finds an entry for the node id whose
  \<open>requested\<close> flag is set, it returns no replacement and \<open>ignored = true\<close>; the
  pool (its counter, its table and its cache among the rest) and the server are as
  before.
\<close>

theorem ConfirmDropped_requested:
  assumes "peers t nodeID = Some peer" and "requested peer"
  shows "ConfirmDropped server t nodeID reason visits = Inr (server, t, None, True)"
  using assms by (simp add: ConfirmDropped_def)

theorem ConfirmDropped_requested_witness:
  "peers (poolFull\<lparr>peers := [2 \<mapsto> infoB\<lparr>requested := True\<rparr>]\<rparr>) 2
     = Some (infoB\<lparr>requested := True\<rparr>) \<and>
   requested (infoB\<lparr>requested := True\<rparr>) \<and>
   ConfirmDropped server0 (poolFull\<lparr>peers := [2 \<mapsto> infoB\<lparr>requested := True\<rparr>]\<rparr>) 2
       ''requested'' [(2, 200)]
     = Inr (server0, poolFull\<lparr>peers := [2 \<mapsto> infoB\<lparr>requested := True\<rparr>]\<rparr>, None, True)"
proof -
  let ?t = "poolFull\<lparr>peers := [2 \<mapsto> infoB\<lparr>requested := True\<rparr>]\<rparr>"
  have h1: "peers ?t 2 = Some (infoB\<lparr>requested := True\<rparr>)" by simp
  have h2: "requested (infoB\<lparr>requested := True\<rparr>)" by simp
  from ConfirmDropped_requested [OF h1 h2] h1 h2 show ?thesis by blast
qed

subsection \<open>The replacement of a dropped peer\<close>



subsection \<open>The requested flag is permanent\<close>

lemma perform_requested:
  assumes "peers t n = Some info" and "requested info"
    and "perform (server, t) c = Inr (server', t')"
  shows "\<exists>info'. peers t' n = Some info' \<and> requested info'"
proof (cases c)
  case (CallConfirmAdded k)
  show ?thesis
  proof (cases "peers t k")
    case None
    with assms CallConfirmAdded show ?thesis by (simp add: ConfirmAdded_def)
  next
    case (Some peer)
    with assms CallConfirmAdded show ?thesis
      by (cases "k = n")
         (auto simp: ConfirmAdded_def Let_def dest!: sendPeriodAtMin_fields
               split: if_splits sum.splits)
  qed
next
  case (CallConfirmDropped k reason visits)
  show ?thesis
  proof (cases "peers t k")
    case None
    with assms CallConfirmDropped show ?thesis by (simp add: ConfirmDropped_def)
  next
    case (Some peer)
    with assms CallConfirmDropped show ?thesis
      by (cases "k = n")
         (auto simp: ConfirmDropped_def Let_def dest!: sendPeriodAtMin_fields
               split: if_splits sum.splits option.splits)
  qed
next
  case (CallProcessFoundNode nd now)
  with assms show ?thesis
    by (cases "ID nd = n")
       (auto simp: processFoundNode_def Let_def split: if_splits option.splits)
qed

lemma performAll_requested:
  "peers t n = Some info \<Longrightarrow> requested info \<Longrightarrow>
   performAll (server, t) cs = Inr (server', t')
     \<Longrightarrow> \<exists>info'. peers t' n = Some info' \<and> requested info'"
proof (induction cs arbitrary: server t info)
  case Nil
  then show ?case by simp
next
  case (Cons c cs)
  from Cons.prems(3) obtain server1 t1 where
    step: "perform (server, t) c = Inr (server1, t1)"
    and rest: "performAll (server1, t1) cs = Inr (server', t')"
    by (auto split: sum.splits)
  from perform_requested [OF Cons.prems(1,2) step] obtain info1 where
    "peers t1 n = Some info1" "requested info1" by blast
  from Cons.IH [OF this rest] show ?case .
qed

text \<open>
  Claim C10. Let the entry of node \<open>n\<close> have \<open>requested\<close> set. Then
  \<^verbatim>\<open>processFoundNode\<close> for a node with that id changes only its
  \<open>discoveredTime\<close>; \<^verbatim>\<open>ConfirmAdded\<close>, when the entry is not connected and the
  counter is not at the maximum, marks it connected and increments the counter, with
  \<open>requested\<close> still set; and after every sequence of calls of \<^verbatim>\<open>ConfirmAdded\<close>,
  \<^verbatim>\<open>ConfirmDropped\<close> and \<^verbatim>\<open>processFoundNode\<close> the node still has an entry with
  \<open>requested\<close> set, so that a drop of the node returns \<open>ignored = true\<close> and leaves
  the pool, its counter included, as it is.
\<close>

theorem requested_is_never_cleared:
  assumes "peers t n = Some info" and "requested info"
  shows "(ID nd = n \<longrightarrow>
            peers (snd (processFoundNode server t nd now)) n
              = Some (info\<lparr>discoveredTime := now\<rparr>)) \<and>
         (\<not> connected info \<and> nconnected t \<noteq> snd (limits t) \<and>
            ConfirmAdded server t n = Inr (server2, t2) \<longrightarrow>
              peers t2 n = Some (info\<lparr>connected := True\<rparr>) \<and>
              nconnected t2 = nconnected t + 1) \<and>
         (performAll (server, t) cs = Inr (server', t') \<longrightarrow>
            (\<exists>info'. peers t' n = Some info' \<and> requested info') \<and>
            ConfirmDropped server' t' n reason visits = Inr (server', t', None, True))"
proof (intro conjI impI)
  assume "ID nd = n"
  with assms
  show "peers (snd (processFoundNode server t nd now)) n = Some (info\<lparr>discoveredTime := now\<rparr>)"
    by (simp add: processFoundNode_def Let_def)
next
  assume a: "\<not> connected info \<and> nconnected t \<noteq> snd (limits t) \<and>
            ConfirmAdded server t n = Inr (server2, t2)"
  with assms show "peers t2 n = Some (info\<lparr>connected := True\<rparr>)"
    by (auto simp: ConfirmAdded_def Let_def dest!: sendPeriodAtMin_fields split: sum.splits)
  from a assms show "nconnected t2 = nconnected t + 1"
    by (auto simp: ConfirmAdded_def Let_def dest!: sendPeriodAtMin_fields split: sum.splits)
next
  assume r: "performAll (server, t) cs = Inr (server', t')"
  from performAll_requested [OF assms r]
  show "\<exists>info'. peers t' n = Some info' \<and> requested info'" .
  then show "ConfirmDropped server' t' n reason visits = Inr (server', t', None, True)"
    by (auto simp: ConfirmDropped_def)
qed

lemmas pool_defs = ConfirmAdded_def ConfirmDropped_def processFoundNode_def persistPeer_def
  forgetPeer_def sendPeriodAtMin_def SearchRunning_def addPeer_def removePeer_def request_def
  NewTopicPool_def Let_def

text \<open>
  From the gated pool: node 2 is found again, its drop is ignored, node 1 drops and
  node 2 is asked for as its replacement, and the add of node 2 is counted. Its
  entry is then connected and requested, and its next drop is ignored with the
  counter left at 1.
\<close>

theorem requested_is_never_cleared_witness:
  "peers poolGated 2 = Some (infoB\<lparr>requested := True\<rparr>) \<and>
   requested (infoB\<lparr>requested := True\<rparr>) \<and>
   (\<exists>server' t'.
      performAll (server0, poolGated)
        [CallProcessFoundNode nodeB 300,
         CallConfirmDropped 2 ''requested'' [],
         CallConfirmDropped 1 ''remote'' [(2, 400)],
         CallConfirmAdded 2] = Inr (server', t') \<and>
      peers t' 2 = Some (infoB\<lparr>discoveredTime := 300, connected := True, requested := True\<rparr>) \<and>
      nconnected t' = 1 \<and>
      ConfirmDropped server' t' 2 ''remote'' [] = Inr (server', t', None, True))"
proof -
  have h1: "peers poolGated 2 = Some (infoB\<lparr>requested := True\<rparr>)"
    by (simp add: poolGated_def)
  have h2: "requested (infoB\<lparr>requested := True\<rparr>)" by simp
  obtain server' t' where
    h3: "performAll (server0, poolGated)
        [CallProcessFoundNode nodeB 300,
         CallConfirmDropped 2 ''requested'' [],
         CallConfirmDropped 1 ''remote'' [(2, 400)],
         CallConfirmAdded 2] = Inr (server', t')"
    and h4: "peers t' 2
               = Some (infoB\<lparr>discoveredTime := 300, connected := True, requested := True\<rparr>)"
    and h5: "nconnected t' = 1"
    by (simp add: pool_defs poolGated_def poolFull_def infoA_def infoB_def nodeB_def
          expirationPeriod_def)
  from requested_is_never_cleared [OF h1 h2, of nodeB server0 300 server' t'
       "[CallProcessFoundNode nodeB 300,
         CallConfirmDropped 2 ''requested'' [],
         CallConfirmDropped 1 ''remote'' [(2, 400)],
         CallConfirmAdded 2]" server' t' "''remote''" "[]"] h3
  have "ConfirmDropped server' t' 2 ''remote'' [] = Inr (server', t', None, True)"
    by blast
  with h1 h2 h3 h4 h5 show ?thesis by blast
qed

subsection \<open>Stopping twice\<close>

lemma StopSearch_twice: "StopSearch t = Inr t1 \<Longrightarrow> StopSearch t1 = Inr t1"
  by (cases "quit t"; cases "period t")
     (auto simp: StopSearch_def SearchRunning_def Let_def split: if_splits)

lemma Stop_twice: "Stop p = Inr p1 \<Longrightarrow> Stop p1 = Inr p1"
  by (cases "pquit p") (auto simp: Stop_def split: option.splits sum.splits)

text \<open>
  Claim C9. A call of \<^verbatim>\<open>StopSearch\<close> on the pool that a call of
  \<^verbatim>\<open>StopSearch\<close> has returned, and a call of \<^verbatim>\<open>Stop\<close> on the peer pool that
  a call of \<^verbatim>\<open>Stop\<close> has returned, return the pool as it is: no channel changes
  its state, the count of \<^verbatim>\<open>Unsubscribe\<close> calls stays, and so does every other
  field.
\<close>

theorem second_stop_is_noop:
  "(StopSearch t = Inr t1 \<longrightarrow> StopSearch t1 = Inr t1) \<and>
   (Stop p = Inr p1 \<longrightarrow> Stop p1 = Inr p1)"
  using StopSearch_twice Stop_twice by blast

theorem second_stop_is_noop_witness:
  "(\<exists>t1. StopSearch startedPool = Inr t1 \<and> running t1 = 0 \<and> quit t1 = ChanClosed [] \<and>
         period t1 = ChanClosed [] \<and> StopSearch t1 = Inr t1) \<and>
   (\<exists>p1. Stop startedPeerPool = Inr p1 \<and> pquit p1 = ChanClosed [] \<and>
         serverSubscription p1 = Some \<lparr>unsubscribed = 1\<rparr> \<and> Stop p1 = Inr p1)"
proof -
  obtain t1 where a: "StopSearch startedPool = Inr t1" and a': "running t1 = 0"
      "quit t1 = ChanClosed []" "period t1 = ChanClosed []"
    by (simp add: startedPool_def StopSearch_def SearchRunning_def NewTopicPool_def Let_def)
  obtain p1 where b: "Stop startedPeerPool = Inr p1" and b': "pquit p1 = ChanClosed []"
      "serverSubscription p1 = Some \<lparr>unsubscribed = 1\<rparr>"
    by (simp add: startedPeerPool_def startedPool_def Stop_def StopSearch_def SearchRunning_def
          NewTopicPool_def Let_def)
  from second_stop_is_noop [of startedPool t1 startedPeerPool p1] a b
  have "StopSearch t1 = Inr t1" "Stop p1 = Inr p1" by blast+
  with a a' b b' show ?thesis by blast
qed

subsection \<open>The consumer and the server's own node\<close>

lemma consumerLoop_skips_self:
  "consumerLoop selfID st ms =
   consumerLoop selfID st
     (filter (\<lambda>m. case m of RecvFound n now \<Rightarrow> ID n \<noteq> selfID | _ \<Rightarrow> True) ms)"
proof (induction ms arbitrary: st)
  case Nil
  show ?case by simp
next
  case (Cons m ms)
  obtain server t where st: "st = (server, t)" by (cases st)
  show ?case
  proof (cases m)
    case RecvQuit
    with Cons st show ?thesis by (cases "quit t") simp_all
  next
    case (RecvLookup b)
    with Cons show ?thesis by simp
  next
    case (RecvFound n now)
    with Cons st show ?thesis by simp
  qed
qed

text \<open>
  Claim C8. An iteration of the consumer that receives from \<^verbatim>\<open>found\<close> a node
  whose id is the id of \<^verbatim>\<open>server.Self()\<close> leaves the pool, its table included,
  and the server, with the requests made of it, as they are, and the loop goes on; a
  run of \<^verbatim>\<open>handleFoundPeers\<close> ends as the run on the same input without such
  nodes.
\<close>

theorem own_node_is_dropped:
  "(ID n = ID (Self server) \<longrightarrow>
      consumerStep (ID (Self server)) (server, t) (RecvFound n now) = ((server, t), False)) \<and>
   handleFoundPeers server t ms =
     handleFoundPeers server t
       (filter (\<lambda>m. case m of RecvFound n now \<Rightarrow> ID n \<noteq> ID (Self server) | _ \<Rightarrow> True) ms)"
proof
  show "ID n = ID (Self server) \<longrightarrow>
      consumerStep (ID (Self server)) (server, t) (RecvFound n now) = ((server, t), False)"
    by simp
  show "handleFoundPeers server t ms =
     handleFoundPeers server t
       (filter (\<lambda>m. case m of RecvFound n now \<Rightarrow> ID n \<noteq> ID (Self server) | _ \<Rightarrow> True) ms)"
    unfolding handleFoundPeers_def
    using consumerLoop_skips_self [of "ID (Self server)" _ ms]
    by (simp split: sum.splits)
qed

theorem own_node_is_dropped_witness:
  "ID selfNode = ID (Self server0) \<and>
   consumerStep (ID (Self server0)) (server0, startedPool) (RecvFound selfNode 5)
     = ((server0, startedPool), False) \<and>
   handleFoundPeers server0 startedPool [RecvFound selfNode 5, RecvFound nodeA 6]
     = handleFoundPeers server0 startedPool [RecvFound nodeA 6]"
proof -
  have h: "ID selfNode = ID (Self server0)" by (simp add: server0_def)
  from own_node_is_dropped [of selfNode server0 startedPool 5
      "[RecvFound selfNode 5, RecvFound nodeA 6]"] h
  show ?thesis by (simp add: server0_def selfNode_def nodeA_def)
qed

subsection \<open>The counter and the connected entries\<close>

text \<open>
  What holds of the counter over every sequence of calls: it stays at or below the
  maximum, a pool whose search is not running never faults, and the counter is never
  above the number of connected entries.
\<close>

lemma perform_le_max:
  assumes "nconnected t \<le> snd (limits t)"
    and "perform (server, t) c = Inr (server', t')"
  shows "nconnected t' \<le> snd (limits t') \<and> limits t' = limits t"
proof (cases c)
  case (CallConfirmAdded k)
  with assms show ?thesis
    by (auto simp: ConfirmAdded_def Let_def dest!: sendPeriodAtMin_fields
             split: option.splits if_splits sum.splits)
next
  case (CallConfirmDropped k reason visits)
  with assms show ?thesis
    by (auto simp: ConfirmDropped_def Let_def dest!: sendPeriodAtMin_fields
             split: option.splits if_splits sum.splits)
next
  case (CallProcessFoundNode nd now)
  with assms show ?thesis
    by (auto simp: processFoundNode_def Let_def split: if_splits)
qed

lemma performAll_preserves_le_max:
  "nconnected t \<le> snd (limits t) \<Longrightarrow> performAll (server, t) cs = Inr (server', t')
     \<Longrightarrow> nconnected t' \<le> snd (limits t') \<and> limits t' = limits t"
proof (induction cs arbitrary: server t)
  case Nil
  then show ?case by simp
next
  case (Cons c cs)
  from Cons.prems(2) obtain server1 t1 where
    step: "perform (server, t) c = Inr (server1, t1)"
    and rest: "performAll (server1, t1) cs = Inr (server', t')"
    by (auto split: sum.splits)
  from perform_le_max [OF Cons.prems(1) step]
  have le: "nconnected t1 \<le> snd (limits t1)" and lim: "limits t1 = limits t" by blast+
  from Cons.IH [OF le rest] lim show ?case by auto
qed

lemma performAll_le_max:
  assumes "0 \<le> snd lim"
    and "performAll (server, NewTopicPool tp lim slow fast) cs = Inr (server', t')"
  shows "nconnected t' \<le> snd lim"
proof -
  have "nconnected (NewTopicPool tp lim slow fast) \<le> snd (limits (NewTopicPool tp lim slow fast))"
    using assms(1) by (simp add: NewTopicPool_def)
  from performAll_preserves_le_max [OF this assms(2)]
  have "nconnected t' \<le> snd (limits t')" and "limits t' = limits (NewTopicPool tp lim slow fast)"
    by blast+
  then show ?thesis by (simp add: NewTopicPool_def)
qed

lemma perform_not_running_returns:
  "running t \<noteq> 1 \<Longrightarrow> \<exists>server' t'. perform (server, t) c = Inr (server', t') \<and> running t' = running t"
  by (cases c)
     (auto simp: ConfirmAdded_def ConfirmDropped_def processFoundNode_def sendPeriodAtMin_def
        SearchRunning_def Let_def split: option.splits)

lemma performAll_not_running_returns:
  "running t \<noteq> 1 \<Longrightarrow> \<exists>server' t'. performAll (server, t) cs = Inr (server', t')"
proof (induction cs arbitrary: server t)
  case Nil
  show ?case by simp
next
  case (Cons c cs)
  from perform_not_running_returns [OF Cons.prems, of server c] obtain server1 t1 where
    "perform (server, t) c = Inr (server1, t1)" "running t1 = running t" by blast
  with Cons.IH [of t1 server1] Cons.prems show ?case by simp
qed

lemma perform_counter_le_entries:
  assumes "nconnected t \<le> int (card (connectedPeers t))"
    and "perform (server, t) c = Inr (server', t')"
  shows "nconnected t' \<le> int (card (connectedPeers t'))"
proof (cases c)
  case (CallConfirmAdded k)
  show ?thesis
  proof (cases "peers t k")
    case None
    with assms CallConfirmAdded show ?thesis by (simp add: ConfirmAdded_def)
  next
    case (Some peer)
    show ?thesis
    proof (cases "nconnected t = snd (limits t)")
      case True
      with assms CallConfirmAdded Some
      have "peers t' = (peers t)(k \<mapsto> peer\<lparr>requested := True\<rparr>)" "nconnected t' = nconnected t"
        by (auto simp: ConfirmAdded_def Let_def)
      moreover from this Some have "connectedPeers t' = connectedPeers t"
        by (auto simp: connectedPeers_def)
      ultimately show ?thesis using assms(1) by simp
    next
      case False
      show ?thesis
      proof (cases "connected peer")
        case True
        with assms CallConfirmAdded Some False
        have "peers t' = peers t" "nconnected t' = nconnected t"
          by (auto simp: ConfirmAdded_def Let_def dest!: sendPeriodAtMin_fields split: sum.splits)
        with assms(1) show ?thesis by (simp add: connectedPeers_def)
      next
        case nc: False
        with assms CallConfirmAdded Some False
        have p: "peers t' = (peers t)(k \<mapsto> peer\<lparr>connected := True\<rparr>)"
          and n: "nconnected t' = nconnected t + 1"
          by (auto simp: ConfirmAdded_def Let_def dest!: sendPeriodAtMin_fields split: sum.splits)
        from p Some nc have "connectedPeers t' = insert k (connectedPeers t)"
          and "k \<notin> connectedPeers t"
          by (auto simp: connectedPeers_def)
        then have "card (connectedPeers t') = Suc (card (connectedPeers t))"
          by simp
        with n assms(1) show ?thesis by simp
      qed
    qed
  qed
next
  case (CallConfirmDropped k reason visits)
  show ?thesis
  proof (cases "peers t k")
    case None
    with assms CallConfirmDropped show ?thesis by (simp add: ConfirmDropped_def)
  next
    case (Some peer)
    show ?thesis
    proof (cases "requested peer")
      case True
      with assms CallConfirmDropped Some show ?thesis by (simp add: ConfirmDropped_def)
    next
      case False
      with assms CallConfirmDropped Some
      have p: "peers t' = (peers t)(k := None)" and n: "nconnected t' = nconnected t - 1"
        by (auto simp: ConfirmDropped_def Let_def dest!: sendPeriodAtMin_fields
                 split: sum.splits option.splits)
      from p have "connectedPeers t' = connectedPeers t - {k}"
        by (auto simp: connectedPeers_def)
      then have "card (connectedPeers t') = card (connectedPeers t) - (if k \<in> connectedPeers t then 1 else 0)"
        by (simp add: card_Diff_singleton_if)
      then have "card (connectedPeers t) \<le> Suc (card (connectedPeers t'))"
        by (cases "k \<in> connectedPeers t") simp_all
      with n assms(1) show ?thesis by simp
    qed
  qed
next
  case (CallProcessFoundNode nd now)
  with assms have "connectedPeers t' = connectedPeers t" "nconnected t' = nconnected t"
    by (auto simp: processFoundNode_def Let_def connectedPeers_def split: if_splits option.splits)
  with assms(1) show ?thesis by simp
qed

lemma performAll_counter_le_entries:
  "nconnected t \<le> int (card (connectedPeers t)) \<Longrightarrow>
   performAll (server, t) cs = Inr (server', t')
     \<Longrightarrow> nconnected t' \<le> int (card (connectedPeers t'))"
proof (induction cs arbitrary: server t)
  case Nil
  then show ?case by simp
next
  case (Cons c cs)
  from Cons.prems(2) obtain server1 t1 where
    step: "perform (server, t) c = Inr (server1, t1)"
    and rest: "performAll (server1, t1) cs = Inr (server', t')"
    by (auto split: sum.splits)
  from Cons.IH [OF perform_counter_le_entries [OF Cons.prems(1) step] rest] show ?case .
qed

text \<open>
  Claim C1 fails on the code. \<^verbatim>\<open>ConfirmDropped\<close> decrements the counter for every
  tracked node that is not requested, connected or not, while \<^verbatim>\<open>ConfirmAdded\<close>
  increments it only when it sets the flag. From a fresh pool: nodes 1 and 2 are found,
  the add of node 1 is confirmed, and node 2, never confirmed, drops. The counter is then
  0 and the table holds one connected entry.
\<close>

theorem counter_differs_from_connected_entries:
  "\<exists>server' t'.
     performAll (server0, NewTopicPool ''A'' (2, 3) DefaultSlowSync DefaultFastSync)
       [CallProcessFoundNode nodeA 0, CallProcessFoundNode nodeB 0, CallConfirmAdded 1,
        CallConfirmDropped 2 ''remote'' [(1, 5)]] = Inr (server', t') \<and>
     nconnected t' = 0 \<and> connectedPeers t' = {1} \<and> card (connectedPeers t') = 1"
  by (auto simp add: pool_defs nodeA_def nodeB_def server0_def connectedPeers_def)

text \<open>
  Claim C2 fails on the code, by the same decrement: from a fresh pool, node 1 is found
  and then drops before any add of it was confirmed. The counter is then \<open>-1\<close>.
\<close>

theorem counter_goes_negative:
  "\<exists>server' t'.
     performAll (server0, NewTopicPool ''A'' (2, 3) DefaultSlowSync DefaultFastSync)
       [CallProcessFoundNode nodeA 0, CallConfirmDropped 1 ''remote'' []] = Inr (server', t') \<and>
     nconnected t' = - 1 \<and> \<not> 0 \<le> nconnected t'"
  by (simp add: pool_defs nodeA_def server0_def)

subsection \<open>The cache of the pools that Start creates\<close>

text \<open>
  A topic pool that has a cache seeds \<^verbatim>\<open>found\<close> from it and persists a confirmed
  node into it; the pools of \<^verbatim>\<open>Start\<close> have none.
\<close>

lemma StartSearch_seeds_from_cache:
  assumes "running t \<noteq> 1" and "DiscV5 server \<noteq> None" and "cache t = Some c"
  shows "\<exists>server' t' seeds. StartSearch server t = (server', t', ChanOpen seeds, None) \<and>
           seeds = cache_GetPeersRange c (topic t) 5 \<and> length seeds \<le> 5"
  using assms by (simp add: StartSearch_def Let_def cache_GetPeersRange_def)

lemma ConfirmAdded_persists:
  assumes "peers t nodeID = Some peer" and "cache t = Some c" and "\<not> unwritable c"
    and "ConfirmAdded server t nodeID = Inr (server', t')"
  shows "\<exists>c'. cache t' = Some c' \<and>
           map_of (entries c') (topic t, ID (node peer)) = Some (node peer)"
proof -
  have p: "persistPeer t peer =
      t\<lparr>cache := Some (c\<lparr>entries := AList.update (topic t, ID (node peer)) (node peer) (entries c)\<rparr>)\<rparr>"
    using assms(2,3) by (simp add: persistPeer_def cache_AddPeer_def)
  have c: "cache (persistPeer t peer) =
      Some (c\<lparr>entries := AList.update (topic t, ID (node peer)) (node peer) (entries c)\<rparr>)"
    by (simp add: p)
  have m: "map_of (AList.update (topic t, ID (node peer)) (node peer) (entries c))
             (topic t, ID (node peer)) = Some (node peer)"
    by (simp add: update_conv')
  from assms(1,4) have "cache t' = cache (persistPeer t peer)"
    by (auto simp: ConfirmAdded_def Let_def dest!: sendPeriodAtMin_fields
             split: if_splits sum.splits)
  with c m show ?thesis by simp
qed

lemma startTopics_no_cache:
  "(\<forall>t \<in> set acc. cache t = None) \<Longrightarrow> startTopics server slow fast cfg acc = (server', ts, err)
     \<Longrightarrow> \<forall>t \<in> set ts. cache t = None"
proof (induction cfg arbitrary: server acc)
  case Nil
  then show ?case by simp
next
  case (Cons e cfg)
  obtain tp lim where e: "e = (tp, lim)" by (cases e)
  obtain server1 t1 found er where
    s: "StartSearch server (NewTopicPool tp lim slow fast) = (server1, t1, found, er)"
    by (cases "StartSearch server (NewTopicPool tp lim slow fast)") auto
  have c1: "cache t1 = None"
    using s by (auto simp: StartSearch_def NewTopicPool_def Let_def split: if_splits)
  show ?case
  proof (cases er)
    case None
    with Cons.prems s e have "startTopics server1 slow fast cfg (acc @ [t1]) = (server', ts, err)"
      by simp
    moreover have "\<forall>t \<in> set (acc @ [t1]). cache t = None"
      using Cons.prems(1) c1 by simp
    ultimately show ?thesis using Cons.IH by blast
  next
    case (Some x)
    with Cons.prems s e show ?thesis by auto
  qed
qed

lemma Start_topics_have_no_cache:
  assumes "DiscV5 server \<noteq> None" and "Start server p = (server', p', err)"
  shows "\<forall>t \<in> set (topics p'). cache t = None"
proof -
  obtain server1 ts er where
    st: "startTopics server (pslowSync p) (pfastSync p) (config p) [] = (server1, ts, er)"
    by (cases "startTopics server (pslowSync p) (pfastSync p) (config p) []") auto
  from startTopics_no_cache [OF _ st] have "\<forall>t \<in> set ts. cache t = None" by simp
  moreover have "topics p' = ts"
    using assms st by (cases er) (auto simp: Start_def Let_def)
  ultimately show ?thesis by simp
qed

text \<open>
  Claim C4 fails on the code. \<^verbatim>\<open>Start\<close> creates each topic pool with
  \<^verbatim>\<open>NewTopicPool\<close>, which sets no cache, and never hands \<^verbatim>\<open>p.cache\<close> on. For
  the peer pool created with a cache that holds node 2 for topic \<open>A\<close>: the topic pool
  of \<^verbatim>\<open>Start\<close> has no cache, \<^verbatim>\<open>StartSearch\<close> has put nothing into \<^verbatim>\<open>found\<close>,
  and the confirmed add of node 1 is counted with no cache to persist it in.
\<close>

theorem started_pools_have_no_cache:
  "pcache peerPool1 = Some cache1 \<and>
   cache_GetPeersRange cache1 ''A'' 5 = [nodeB] \<and>
   Start server0 peerPool1 = (startedServer, startedPeerPool, None) \<and>
   topics startedPeerPool = [startedPool] \<and>
   cache startedPool = None \<and>
   StartSearch server0 (NewTopicPool ''A'' (1, 1) DefaultSlowSync DefaultFastSync)
     = (request server0 (SearchTopic ''A''), startedPool, ChanOpen [], None) \<and>
   processFoundNode startedServer startedPool nodeA 0 = (foundServer, foundPool) \<and>
   (\<exists>server3 t3. ConfirmAdded foundServer foundPool 1 = Inr (server3, t3) \<and>
      nconnected t3 = 1 \<and> cache t3 = None)"
  by (simp add: cache_GetPeersRange_def cache1_def Start_def peerPool1_def NewPeerPool_def
        StartSearch_def pool_defs NewNode_def server0_def nodeA_def infoA_def
        startedServer_def startedPool_def startedPeerPool_def foundServer_def foundPool_def)

subsection \<open>Closing DiscoveryV5 when every topic is at its maximum\<close>

text \<open>
  Claim C7 fails on the code. With \<^verbatim>\<open>stopOnMax\<close> set and one topic of limits
  \<open>(1, 1)\<close>, started, and node 1 found: the add event of node 1 brings the topic to
  its maximum, and the event task closes the handle and sets \<^verbatim>\<open>server.DiscV5\<close>
  to nil. At the next add event,
  here of a node that no topic tracks, every topic is still at its maximum, and the
  task calls \<^verbatim>\<open>Close\<close> again, on the nil handle.
\<close>

theorem discv5_closed_again_on_nil:
  "Start server0 peerPool1 = (startedServer, startedPeerPool, None) \<and>
   processFoundNode startedServer startedPool nodeA 0 = (foundServer, foundPool) \<and>
   (\<exists>d. handleServerPeers foundServer (startedPeerPool\<lparr>topics := [foundPool]\<rparr>)
           [SelEvent (addEvent 1) (Inl (OtherError ''down'')) (\<lambda>i. [])] = Inr (d, False) \<and>
        map MaxReached (topics (pool d)) = [True] \<and>
        DiscV5 (srv d) = None \<and>
        calls (srv d) = [SearchTopic ''A'', SubscribeEvents, AddPeer nodeA,
                         Discv5Close (Network 0)]) \<and>
   handleServerPeers foundServer (startedPeerPool\<lparr>topics := [foundPool]\<rparr>)
     [SelEvent (addEvent 1) (Inl (OtherError ''down'')) (\<lambda>i. []),
      SelEvent (addEvent 2) (Inl (OtherError ''down'')) (\<lambda>i. [])] = Inl NilDereference"
  by (simp add: handleServerPeers_def handleEvent_def addEvent_def startedPeerPool_def
        foundPool_def foundServer_def startedServer_def startedPool_def peerPool1_def
        NewPeerPool_def pool_defs MaxReached_def StopSearch_def closeDiscv5_def server0_def
        infoA_def nodeA_def Start_def StartSearch_def NewNode_def)

end
